theory Spec2Isabelle
  imports Main "HOL-Library.Word"
begin

unbundle bit_operations_syntax

section \<open>The Go run time: panics and returned values\<close>

text \<open>
  A Go function either returns or panics. The two panics that the code of
  \<^verbatim>\<open>pwned.go\<close> can raise are an index out of range (\<^verbatim>\<open>components[1]\<close>) and a
  slice bound out of range (\<^verbatim>\<open>hash[0:5]\<close>); the library's \<^verbatim>\<open>checkSum\<close> has a panic of
  its own (\<^verbatim>\<open>panic("d.nx != 0")\<close>).
\<close>

datatype panic = IndexOutOfRange | SliceBoundsOutOfRange | NxNotZero

datatype 'a outcome = Panics panic | Returns 'a

type_synonym byte = "8 word"
type_synonym uint32 = "32 word"
type_synonym uint64 = "64 word"

text \<open>A Go string is a sequence of bytes; \<open>bytesOf\<close> reads them.\<close>

definition bytesOf :: "string \<Rightarrow> byte list" where
  "bytesOf s = map of_char s"

text \<open>\<^verbatim>\<open>xs[i]\<close>: panics when \<open>i\<close> is not below the length.\<close>

definition index :: "'a list \<Rightarrow> nat \<Rightarrow> 'a outcome" where
  "index xs i = (if i < length xs then Returns (xs ! i) else Panics IndexOutOfRange)"

text \<open>\<^verbatim>\<open>s[lo:hi]\<close> on a string: panics unless \<open>lo \<le> hi \<le> len(s)\<close>.\<close>

definition slice :: "string \<Rightarrow> nat \<Rightarrow> nat \<Rightarrow> string outcome" where
  "slice s lo hi =
     (if lo \<le> hi \<and> hi \<le> length s then Returns (take (hi - lo) (drop lo s))
      else Panics SliceBoundsOutOfRange)"

section \<open>Standard library: \<^verbatim>\<open>crypto/sha1\<close>\<close>

text \<open>
  \<^verbatim>\<open>getHash\<close> calls \<^verbatim>\<open>sha1.New()\<close>, writes the password and reads \<^verbatim>\<open>h.Sum(nil)\<close>.
  The library is not part of the repository; it is modelled after its generic
  implementation (\<^verbatim>\<open>blockGeneric\<close> and \<^verbatim>\<open>checkSum\<close>), which is SHA-1 of FIPS 180-4:
  32-bit words that wrap around, a 16-word circular message schedule, 80 rounds
  for each 64-byte chunk, and the padding of \<^verbatim>\<open>checkSum\<close>.
\<close>

definition RotateLeft32 :: "uint32 \<Rightarrow> nat \<Rightarrow> uint32" where
  "RotateLeft32 x k = (push_bit k x) OR (drop_bit (32 - k) x)"

definition init0 :: uint32 where "init0 = 0x67452301"
definition init1 :: uint32 where "init1 = 0xEFCDAB89"
definition init2 :: uint32 where "init2 = 0x98BADCFE"
definition init3 :: uint32 where "init3 = 0x10325476"
definition init4 :: uint32 where "init4 = 0xC3D2E1F0"

definition K0 :: uint32 where "K0 = 0x5A827999"
definition K1 :: uint32 where "K1 = 0x6ED9EBA1"
definition K2 :: uint32 where "K2 = 0x8F1BBCDC"
definition K3 :: uint32 where "K3 = 0xCA62C1D6"

type_synonym regs = "uint32 \<times> uint32 \<times> uint32 \<times> uint32 \<times> uint32"

text \<open>The first 16 words of the schedule: the chunk read big-endian.\<close>

definition loadWords :: "byte list \<Rightarrow> uint32 list" where
  "loadWords p =
     map (\<lambda>i. push_bit 24 (ucast (p ! (4 * i))) OR push_bit 16 (ucast (p ! (4 * i + 1)))
              OR push_bit 8 (ucast (p ! (4 * i + 2))) OR ucast (p ! (4 * i + 3))) [0..<16]"

text \<open>
  From round 16 on:
  \<^verbatim>\<open>tmp := w[(i-3)&0xf] ^ w[(i-8)&0xf] ^ w[(i-14)&0xf] ^ w[i&0xf]; w[i&0xf] = RotateLeft32(tmp, 1)\<close>.
\<close>

definition mixWord :: "uint32 list \<Rightarrow> nat \<Rightarrow> uint32 list" where
  "mixWord w i =
     w[i mod 16 := RotateLeft32 (w ! ((i - 3) mod 16) XOR w ! ((i - 8) mod 16)
                                 XOR w ! ((i - 14) mod 16) XOR w ! (i mod 16)) 1]"

text \<open>One round \<open>i\<close> of the five loops of \<^verbatim>\<open>blockGeneric\<close>, on the schedule and \<open>a, b, c, d, e\<close>.\<close>

definition roundStep :: "nat \<Rightarrow> uint32 list \<times> regs \<Rightarrow> uint32 list \<times> regs" where
  "roundStep i s = (case s of (w, a, b, c, d, e) \<Rightarrow>
     let w' = (if i < 16 then w else mixWord w i);
         f = (if i < 20 then (b AND c) OR (NOT b AND d)
              else if i < 40 then b XOR c XOR d
              else if i < 60 then ((b OR c) AND d) OR (b AND c)
              else b XOR c XOR d);
         k = (if i < 20 then K0 else if i < 40 then K1 else if i < 60 then K2 else K3);
         t = RotateLeft32 a 5 + f + e + w' ! (i mod 16) + k
     in (w', t, a, RotateLeft32 b 30, c, d))"

definition blockChunk :: "regs \<Rightarrow> byte list \<Rightarrow> regs" where
  "blockChunk h p = (case h of (h0, h1, h2, h3, h4) \<Rightarrow>
     case fold roundStep [0..<80] (loadWords p, h0, h1, h2, h3, h4) of
       (w, a, b, c, d, e) \<Rightarrow> (h0 + a, h1 + b, h2 + c, h3 + d, h4 + e))"

text \<open>\<^verbatim>\<open>for len(p) >= chunk { ...; p = p[chunk:] }\<close>\<close>

function blockGeneric :: "regs \<Rightarrow> byte list \<Rightarrow> regs" where
  "blockGeneric h p =
     (if 64 \<le> length p then blockGeneric (blockChunk h (take 64 p)) (drop 64 p) else h)"
  by pat_completeness auto
termination
  by (relation "measure (\<lambda>(h, p). length p)") auto

declare blockGeneric.simps [simp del]

definition PutUint64 :: "uint64 \<Rightarrow> byte list" where
  "PutUint64 v = map (\<lambda>i. ucast (drop_bit (8 * (7 - i)) v)) [0..<8]"

definition PutUint32 :: "uint32 \<Rightarrow> byte list" where
  "PutUint32 v = map (\<lambda>i. ucast (drop_bit (8 * (3 - i)) v)) [0..<4]"

text \<open>
  \<^verbatim>\<open>checkSum\<close>: a byte \<open>0x80\<close>, zero bytes up to 56 modulo 64, then the length in
  bits as a big-endian \<^verbatim>\<open>uint64\<close> (\<^verbatim>\<open>len <<= 3\<close> wraps).
\<close>

definition padding :: "nat \<Rightarrow> byte list" where
  "padding len =
     (let t = (if len mod 64 < 56 then 56 - len mod 64 else 64 + 56 - len mod 64)
      in (0x80 # replicate (t - 1) 0) @ PutUint64 (push_bit 3 (of_nat len)))"

definition sha1_Sum :: "byte list \<Rightarrow> byte list" where
  "sha1_Sum msg =
     (case blockGeneric (init0, init1, init2, init3, init4) (msg @ padding (length msg)) of
        (h0, h1, h2, h3, h4) \<Rightarrow>
          PutUint32 h0 @ PutUint32 h1 @ PutUint32 h2 @ PutUint32 h3 @ PutUint32 h4)"

subsection \<open>The hasher object\<close>

text \<open>
  \<open>sha1_Sum\<close> is the digest of a message given in one piece. The library computes it
  on an object: \<^verbatim>\<open>sha1.New()\<close> allocates a \<^verbatim>\<open>digest\<close> and resets it, \<^verbatim>\<open>Write\<close> adds
  bytes to it, and \<^verbatim>\<open>Sum\<close> pads a copy of it and reads the five words. The fields
  are the chaining value \<^verbatim>\<open>h\<close>, the buffer \<^verbatim>\<open>x\<close> with its fill \<^verbatim>\<open>nx\<close> (here the list
  of the \<^verbatim>\<open>nx\<close> buffered bytes), and the number \<^verbatim>\<open>len\<close> of bytes written, a
  \<^verbatim>\<open>uint64\<close>.
\<close>

record digest =
  digest_h :: regs
  digest_x :: "byte list"
  digest_len :: uint64

definition Reset :: digest where
  "Reset = \<lparr>digest_h = (init0, init1, init2, init3, init4), digest_x = [], digest_len = 0\<rparr>"

definition Write :: "digest \<Rightarrow> byte list \<Rightarrow> digest" where
  "Write d p =
     (let d1 = d\<lparr>digest_len := digest_len d + of_nat (length p)\<rparr>;
          (d2, p2) =
            (if 0 < length (digest_x d1) then
               (let n = min (64 - length (digest_x d1)) (length p);
                    xs = digest_x d1 @ take n p
                in (if length xs = 64
                    then d1\<lparr>digest_h := blockGeneric (digest_h d1) xs, digest_x := []\<rparr>
                    else d1\<lparr>digest_x := xs\<rparr>,
                    drop n p))
             else (d1, p));
          (d3, p3) =
            (if 64 \<le> length p2 then
               (let n = length p2 - length p2 mod 64
                in (d2\<lparr>digest_h := blockGeneric (digest_h d2) (take n p2)\<rparr>, drop n p2))
             else (d2, p2))
      in if 0 < length p3 then d3\<lparr>digest_x := p3\<rparr> else d3)"

text \<open>
  \<^verbatim>\<open>checkSum\<close>: \<^verbatim>\<open>tmp\<close> holds \<open>0x80\<close> and zeros, \<^verbatim>\<open>padlen := tmp[:t+8]\<close> gets the
  length in bits in its last 8 bytes and is written to the digest; then the buffer
  must be empty.
\<close>

definition checkSum :: "digest \<Rightarrow> byte list outcome" where
  "checkSum d =
     (let len = digest_len d;
          tmp = 0x80 # replicate (64 + 8 - 1) 0;
          t = (if len mod 64 < 56 then 56 - len mod 64 else 64 + 56 - len mod 64);
          len = push_bit 3 len;
          padlen = take (unat t) tmp @ PutUint64 len;
          d = Write d padlen
      in if length (digest_x d) \<noteq> 0 then Panics NxNotZero
         else case digest_h d of
                (h0, h1, h2, h3, h4) \<Rightarrow>
                  Returns (PutUint32 h0 @ PutUint32 h1 @ PutUint32 h2 @ PutUint32 h3 @ PutUint32 h4))"

text \<open>
  The hashers that exist, by address: \<^verbatim>\<open>sha1.New()\<close> adds one,
  \<^verbatim>\<open>io.WriteString(h, s)\<close> writes the bytes of \<open>s\<close> to the one at \<open>h\<close>, and
  \<^verbatim>\<open>h.Sum(nil)\<close> works on a copy (\<^verbatim>\<open>d0 := *d\<close>) and leaves the store as it is. An
  address is only ever one that \<open>sha1_New\<close> returned.
\<close>

type_synonym hashers = "digest list"

definition sha1_New :: "hashers \<Rightarrow> nat \<times> hashers" where
  "sha1_New heap = (length heap, heap @ [Reset])"

definition WriteString :: "nat \<Rightarrow> string \<Rightarrow> hashers \<Rightarrow> hashers" where
  "WriteString a s heap = heap[a := Write (heap ! a) (bytesOf s)]"

definition Sum :: "nat \<Rightarrow> hashers \<Rightarrow> byte list outcome" where
  "Sum a heap = checkSum (heap ! a)"

section \<open>Standard library: \<^verbatim>\<open>fmt.Sprintf("%x", ...)\<close> and \<^verbatim>\<open>strings.ToUpper\<close>\<close>

definition ldigits :: string where
  "ldigits = ''0123456789abcdef''"

text \<open>\<^verbatim>\<open>%x\<close> on a byte slice: two lower-case hexadecimal digits for each byte.\<close>

definition Sprintf_x :: "byte list \<Rightarrow> string" where
  "Sprintf_x bs = concat (map (\<lambda>b. [ldigits ! (unat b div 16), ldigits ! (unat b mod 16)]) bs)"

text \<open>
  \<^verbatim>\<open>strings.ToUpper\<close> on a string of ASCII bytes, the only strings it is given here
  (the output of \<^verbatim>\<open>%x\<close>): the letters \<open>a\<close> to \<open>z\<close> move to \<open>A\<close> to \<open>Z\<close>, every other
  byte is kept.
\<close>

definition upperByte :: "char \<Rightarrow> char" where
  "upperByte c = (let n = (of_char c :: nat) in if 97 \<le> n \<and> n \<le> 122 then char_of (n - 32) else c)"

definition ToUpper :: "string \<Rightarrow> string" where
  "ToUpper s = map upperByte s"

section \<open>\<^verbatim>\<open>getHash\<close>\<close>

record pwnedHash =
  Hash :: string
  Range :: string

definition getHash :: "string \<Rightarrow> pwnedHash outcome" where
  "getHash password =
     (let hash = Sprintf_x (sha1_Sum (bytesOf password));
          hash = ToUpper hash
      in case slice hash 0 5 of
           Panics r \<Rightarrow> Panics r
         | Returns rng \<Rightarrow> Returns \<lparr>Hash = hash, Range = rng\<rparr>)"

text \<open>
  The same function statement by statement, on the store of hashers:
  \<^verbatim>\<open>h := sha1.New()\<close>, \<^verbatim>\<open>io.WriteString(h, password)\<close>, \<^verbatim>\<open>h.Sum(nil)\<close>. It returns the
  store it leaves behind, in which the new hasher stays.
\<close>

definition getHash_on :: "hashers \<Rightarrow> string \<Rightarrow> pwnedHash outcome \<times> hashers" where
  "getHash_on heap password =
     (let (h, heap) = sha1_New heap;
          heap = WriteString h password heap
      in case Sum h heap of
           Panics r \<Rightarrow> (Panics r, heap)
         | Returns digest \<Rightarrow>
             (let hash = Sprintf_x digest;
                  hash = ToUpper hash
              in case slice hash 0 5 of
                   Panics r \<Rightarrow> (Panics r, heap)
                 | Returns rng \<Rightarrow> (Returns \<lparr>Hash = hash, Range = rng\<rparr>, heap)))"

section \<open>Standard library: \<^verbatim>\<open>strings.Split\<close>\<close>

text \<open>
  \<^verbatim>\<open>strings.Split(s, sep)\<close> cuts \<open>s\<close> at every occurrence of \<open>sep\<close>, found from left
  to right without overlap, and returns the pieces between them: one piece more
  than there are occurrences, so never an empty list for a non-empty \<open>sep\<close>.
  The program only splits at \<^verbatim>\<open>"\r\n"\<close> and \<^verbatim>\<open>":"\<close>; for an empty separator the
  library explodes the string into its characters, here bytes.
\<close>

function Split :: "string \<Rightarrow> string \<Rightarrow> string list" where
  "Split s sep =
     (if sep = [] then map (\<lambda>c. [c]) s
      else if s = [] then [[]]
      else if take (length sep) s = sep then [] # Split (drop (length sep) s) sep
      else (case Split (tl s) sep of
              [] \<Rightarrow> [[hd s]]
            | p # ps \<Rightarrow> (hd s # p) # ps))"
  by pat_completeness auto
termination
  by (relation "measure (\<lambda>(s, sep). length s)") auto

declare Split.simps [simp del]

definition CRLF :: string where
  "CRLF = [CHR 0x0D, CHR 0x0A]"

section \<open>Standard library: \<^verbatim>\<open>strconv.ParseUint(s, 10, 64)\<close>\<close>

datatype strconv_err = ErrSyntax | ErrRange

text \<open>
  The errors of the program: what \<^verbatim>\<open>http.Get\<close> and \<^verbatim>\<open>ioutil.ReadAll\<close> report
  (the transport), and the \<^verbatim>\<open>*strconv.NumError\<close> of \<^verbatim>\<open>ParseUint\<close>, which carries
  the text it was given (a response that breaks the protocol).
\<close>

datatype go_error = GetError string | ReadError string | NumError string strconv_err

definition isProtocolError :: "go_error \<Rightarrow> bool" where
  "isProtocolError e = (case e of NumError s k \<Rightarrow> True | GetError s \<Rightarrow> False | ReadError s \<Rightarrow> False)"

text \<open>\<^verbatim>\<open>cutoff = maxUint64/10 + 1\<close>, \<^verbatim>\<open>maxVal = 1<<64 - 1\<close>.\<close>

definition cutoff :: uint64 where
  "cutoff = 0xFFFFFFFFFFFFFFFF div 10 + 1"

definition maxVal :: uint64 where
  "maxVal = push_bit 64 1 - 1"

text \<open>\<^verbatim>\<open>lower(c) = c | ('x' - 'X')\<close>\<close>

definition lower :: "byte \<Rightarrow> byte" where
  "lower c = c OR (0x78 - 0x58)"

text \<open>
  The value of one byte as a digit; \<open>None\<close> is the \<^verbatim>\<open>default\<close> branch of the switch.
  With base 10 the underscore branch (\<^verbatim>\<open>c == '_' && base0\<close>) is never taken.
\<close>

definition digitVal :: "byte \<Rightarrow> byte option" where
  "digitVal c =
     (if 0x30 \<le> c \<and> c \<le> 0x39 then Some (c - 0x30)
      else if 0x61 \<le> lower c \<and> lower c \<le> 0x7A then Some (lower c - 0x61 + 10)
      else None)"

text \<open>The loop over the bytes of \<open>s\<close>, with the accumulator \<open>n\<close>.\<close>

fun parseLoop :: "uint64 \<Rightarrow> string \<Rightarrow> strconv_err + uint64" where
  "parseLoop n [] = Inr n"
| "parseLoop n (c # cs) =
     (case digitVal (of_char c) of
        None \<Rightarrow> Inl ErrSyntax
      | Some d \<Rightarrow>
          if d \<ge> 10 then Inl ErrSyntax
          else if n \<ge> cutoff then Inl ErrRange
          else (let n' = n * 10; n1 = n' + ucast d
                in if n1 < n' \<or> n1 > maxVal then Inl ErrRange
                   else parseLoop n1 cs))"

definition ParseUint :: "string \<Rightarrow> go_error + uint64" where
  "ParseUint s =
     (if s = [] then Inl (NumError s ErrSyntax)
      else case parseLoop 0 s of
             Inl k \<Rightarrow> Inl (NumError s k)
           | Inr n \<Rightarrow> Inr n)"

section \<open>The network\<close>

text \<open>
  \<^verbatim>\<open>http.Get\<close> followed by \<^verbatim>\<open>ioutil.ReadAll(resp.Body)\<close>: the request fails, or
  reading the body fails, or the whole body arrives. The status code is not
  looked at by the program. The network is state: what the server answers to
  each URL, and the requests sent so far.
\<close>

datatype http_response = GetFails go_error | ReadFails go_error | Body string

record network =
  server :: "string \<Rightarrow> http_response"
  sent :: "string list"

definition http_Get :: "string \<Rightarrow> network \<Rightarrow> http_response \<times> network" where
  "http_Get url net = (server net url, net\<lparr>sent := sent net @ [url]\<rparr>)"

section \<open>\<^verbatim>\<open>IsPwned\<close>\<close>

record Result =
  Pwned :: bool
  TimesObserved :: uint64

text \<open>
  The pair \<^verbatim>\<open>(*Result, error)\<close> that \<^verbatim>\<open>IsPwned\<close> returns: each component may be
  \<^verbatim>\<open>nil\<close>.
\<close>

type_synonym answer = "Result option \<times> go_error option"

text \<open>The loop \<^verbatim>\<open>for _, line := range lines\<close> and the return after it.\<close>

fun scanLines :: "pwnedHash \<Rightarrow> string list \<Rightarrow> answer outcome" where
  "scanLines hash [] = Returns (Some \<lparr>Pwned = False, TimesObserved = 0\<rparr>, None)"
| "scanLines hash (line # lines) =
     (let components = Split line '':'' in
      case index components 0 of
        Panics r \<Rightarrow> Panics r
      | Returns resultHash \<Rightarrow>
          (case index components 1 of
             Panics r \<Rightarrow> Panics r
           | Returns countStr \<Rightarrow>
               if Range hash @ resultHash = Hash hash then
                 (case ParseUint countStr of
                    Inl err \<Rightarrow> Returns (None, Some err)
                  | Inr count \<Rightarrow> Returns (Some \<lparr>Pwned = True, TimesObserved = count\<rparr>, None))
               else scanLines hash lines))"

definition rangeURL :: string where
  "rangeURL = ''https://api.pwnedpasswords.com/range/''"

definition IsPwned :: "string \<Rightarrow> network \<Rightarrow> answer outcome \<times> network" where
  "IsPwned password net =
     (case getHash password of
        Panics r \<Rightarrow> (Panics r, net)
      | Returns hash \<Rightarrow>
          (case http_Get (rangeURL @ Range hash) net of
             (GetFails err, net') \<Rightarrow> (Returns (None, Some err), net')
           | (ReadFails err, net') \<Rightarrow> (Returns (None, Some err), net')
           | (Body body, net') \<Rightarrow> (scanLines hash (Split body CRLF), net')))"

section \<open>Notions used to state the properties\<close>

text \<open>The alphabet of an upper-case hexadecimal string.\<close>

definition isUpperHex :: "char \<Rightarrow> bool" where
  "isUpperHex c = (c \<in> set ''0123456789ABCDEF'')"

text \<open>
  A line as the loop reads it: \<open>components[0]\<close> is its suffix, \<open>components[1]\<close> its
  count field, and \<open>components[1]\<close> exists when the line splits into two pieces or
  more, that is when it contains a colon. \<open>countOf\<close> is only used on such lines.
\<close>

definition hasColon :: "string \<Rightarrow> bool" where
  "hasColon line = (2 \<le> length (Split line '':''))"

definition suffixOf :: "string \<Rightarrow> string" where
  "suffixOf line = hd (Split line '':'')"

definition countOf :: "string \<Rightarrow> string" where
  "countOf line = Split line '':'' ! 1"

text \<open>The test \<^verbatim>\<open>hash.Range+resultHash == hash.Hash\<close>.\<close>

definition matches :: "pwnedHash \<Rightarrow> string \<Rightarrow> bool" where
  "matches hash line = (Range hash @ suffixOf line = Hash hash)"

text \<open>A line the loop steps over: it has a colon and does not match.\<close>

definition passes :: "pwnedHash \<Rightarrow> string \<Rightarrow> bool" where
  "passes hash line = (hasColon line \<and> \<not> matches hash line)"

text \<open>
  The pieces the loop reads: those before the first match, and the first match.
\<close>

definition scanned :: "pwnedHash \<Rightarrow> string list \<Rightarrow> string list" where
  "scanned hash lines =
     takeWhile (\<lambda>l. \<not> matches hash l) lines @ take 1 (dropWhile (\<lambda>l. \<not> matches hash l) lines)"

text \<open>
  A base-10 numeral is a non-empty string of the digits \<open>0\<close> to \<open>9\<close>; \<open>decVal\<close> is
  the number it denotes, \<open>decAcc\<close> the same with a starting value.
\<close>

definition isDigit :: "char \<Rightarrow> bool" where
  "isDigit c = (48 \<le> (of_char c :: nat) \<and> (of_char c :: nat) \<le> 57)"

definition decVal :: "string \<Rightarrow> nat" where
  "decVal s = foldl (\<lambda>n c. 10 * n + (of_char c - 48)) 0 s"

definition decAcc :: "nat \<Rightarrow> string \<Rightarrow> nat" where
  "decAcc a s = foldl (\<lambda>n c. 10 * n + (of_char c - 48)) a s"

definition isUint64Numeral :: "string \<Rightarrow> bool" where
  "isUint64Numeral s = (s \<noteq> [] \<and> list_all isDigit s \<and> decVal s < 2 ^ 64)"

text \<open>
  Two servers for concrete runs: one answers every request with the same body,
  the other refuses every connection.
\<close>

definition answering :: "string \<Rightarrow> string \<Rightarrow> http_response" where
  "answering body url = Body body"

definition refusing :: "string \<Rightarrow> string \<Rightarrow> http_response" where
  "refusing msg url = GetFails (GetError msg)"

section \<open>The shape of a fingerprint\<close>

text \<open>
The digest has 20 bytes, so its rendering has 40 characters, each an upper-case
hexadecimal digit, and the slice \<^verbatim>\<open>hash[0:5]\<close> is always in range.
\<close>

lemma length_PutUint32: "length (PutUint32 v) = 4"
  by (simp add: PutUint32_def)

lemma length_sha1_Sum: "length (sha1_Sum msg) = 20"
  by (simp add: sha1_Sum_def length_PutUint32 split: prod.splits)

lemma length_Sprintf_x: "length (Sprintf_x bs) = 2 * length bs"
  by (induction bs) (simp_all add: Sprintf_x_def)

lemma upper_ldigit: "k < 16 \<Longrightarrow> isUpperHex (upperByte (ldigits ! k))"
proof -
  assume k: "k < 16"
  have "list_all (\<lambda>k. isUpperHex (upperByte (ldigits ! k))) [0..<16]"
    by (simp add: upt_rec ldigits_def upperByte_def isUpperHex_def char_of_def bit_Suc bit_0)
  with k show ?thesis by (simp add: list_all_iff)
qed

lemma upperHex_Sprintf_x: "list_all isUpperHex (ToUpper (Sprintf_x bs))"
proof (induction bs)
  case Nil
  then show ?case by (simp add: Sprintf_x_def ToUpper_def)
next
  case (Cons b bs)
  have "unat b < 256" using unsigned_less [of b] by simp
  then have "unat b div 16 < 16" by simp
  moreover have "unat b mod 16 < 16" by simp
  ultimately show ?case using Cons
    by (simp add: Sprintf_x_def ToUpper_def upper_ldigit)
qed

lemma length_fullHash: "length (ToUpper (Sprintf_x (sha1_Sum msg))) = 40"
  by (simp add: ToUpper_def length_Sprintf_x length_sha1_Sum)

lemma getHash_Returns:
  "getHash password =
     Returns \<lparr>Hash = ToUpper (Sprintf_x (sha1_Sum (bytesOf password))),
              Range = take 5 (ToUpper (Sprintf_x (sha1_Sum (bytesOf password))))\<rparr>"
  using length_fullHash [of "bytesOf password"]
  by (simp add: getHash_def slice_def Let_def)

section \<open>Two digests, computed\<close>

text \<open>
The digests of \<^verbatim>\<open>"password"\<close> and of the empty string, evaluated round by round:
the 80 rounds of the one chunk are cut into four runs of 20, each checked by the
simplifier on the intermediate state.
\<close>

lemma upt_0: "[0..<20] = [0, 1, 2, 3, 4, 5, 6, 7, 8, 9, 10, 11, 12, 13, 14, 15, 16, 17, 18, 19]"
  by (simp add: upt_rec)

lemma upt_20: "[20..<40] = [20, 21, 22, 23, 24, 25, 26, 27, 28, 29, 30, 31, 32, 33, 34, 35, 36, 37, 38, 39]"
  by (simp add: upt_rec)

lemma upt_40: "[40..<60] = [40, 41, 42, 43, 44, 45, 46, 47, 48, 49, 50, 51, 52, 53, 54, 55, 56, 57, 58, 59]"
  by (simp add: upt_rec)

lemma upt_60: "[60..<80] = [60, 61, 62, 63, 64, 65, 66, 67, 68, 69, 70, 71, 72, 73, 74, 75, 76, 77, 78, 79]"
  by (simp add: upt_rec)

lemma upt_80_split: "[0..<80] = [0..<20] @ [20..<40] @ [40..<60] @ [60..<80]"
proof -
  have "[0..<80] = [0..<20] @ [20..<80]" using upt_add_eq_append [of 0 20 60] by simp
  also have "[20..<80] = [20..<40] @ [40..<80]" using upt_add_eq_append [of 20 40 40] by simp
  also have "[40..<80] = [40..<60] @ [60..<80]" using upt_add_eq_append [of 40 60 20] by simp
  finally show ?thesis .
qed

lemma bytesOf_password: "bytesOf ''password'' = [0x70, 0x61, 0x73, 0x73, 0x77, 0x6F, 0x72, 0x64]"
  by (simp add: bytesOf_def)

lemma padding_password: "padding 8 =
    [0x80, 0x00, 0x00, 0x00, 0x00, 0x00, 0x00, 0x00, 0x00, 0x00, 0x00, 0x00, 0x00, 0x00, 0x00, 0x00, 0x00, 0x00, 0x00, 0x00, 0x00, 0x00, 0x00, 0x00, 0x00, 0x00, 0x00, 0x00, 0x00, 0x00, 0x00, 0x00, 0x00, 0x00, 0x00, 0x00, 0x00, 0x00, 0x00, 0x00, 0x00, 0x00, 0x00, 0x00, 0x00, 0x00, 0x00, 0x00, 0x00, 0x00, 0x00, 0x00, 0x00, 0x00, 0x00, 0x40]"
proof -
  have r: "replicate 47 (0::byte) = [0x00, 0x00, 0x00, 0x00, 0x00, 0x00, 0x00, 0x00, 0x00, 0x00, 0x00, 0x00, 0x00, 0x00, 0x00, 0x00, 0x00, 0x00, 0x00, 0x00, 0x00, 0x00, 0x00, 0x00, 0x00, 0x00, 0x00, 0x00, 0x00, 0x00, 0x00, 0x00, 0x00, 0x00, 0x00, 0x00, 0x00, 0x00, 0x00, 0x00, 0x00, 0x00, 0x00, 0x00, 0x00, 0x00, 0x00]"
    by (simp add: eval_nat_numeral)
  have p: "PutUint64 64 = [0x00, 0x00, 0x00, 0x00, 0x00, 0x00, 0x00, 0x40]"
    by (simp add: PutUint64_def upt_rec)
  show ?thesis
    by (simp add: padding_def r p)
qed

lemma loadWords_password: "loadWords
    [0x70, 0x61, 0x73, 0x73, 0x77, 0x6F, 0x72, 0x64, 0x80, 0x00, 0x00, 0x00, 0x00, 0x00, 0x00, 0x00, 0x00, 0x00, 0x00, 0x00, 0x00, 0x00, 0x00, 0x00, 0x00, 0x00, 0x00, 0x00, 0x00, 0x00, 0x00, 0x00, 0x00, 0x00, 0x00, 0x00, 0x00, 0x00, 0x00, 0x00, 0x00, 0x00, 0x00, 0x00, 0x00, 0x00, 0x00, 0x00, 0x00, 0x00, 0x00, 0x00, 0x00, 0x00, 0x00, 0x00, 0x00, 0x00, 0x00, 0x00, 0x00, 0x00, 0x00, 0x40] =
    [0x70617373, 0x776F7264, 0x80000000, 0x00000000, 0x00000000, 0x00000000, 0x00000000, 0x00000000, 0x00000000, 0x00000000, 0x00000000, 0x00000000, 0x00000000, 0x00000000, 0x00000000, 0x00000040]"
  by (simp add: loadWords_def upt_rec)

lemma rounds_password_0: "fold roundStep [0..<20]
     ([0x70617373, 0x776F7264, 0x80000000, 0x00000000, 0x00000000, 0x00000000, 0x00000000, 0x00000000, 0x00000000, 0x00000000, 0x00000000, 0x00000000, 0x00000000, 0x00000000, 0x00000000, 0x00000040],
      0x67452301, 0xEFCDAB89, 0x98BADCFE, 0x10325476, 0xC3D2E1F0) =
     ([0xE0C2E6E7, 0xEEDEE4C8, 0x00000081, 0xC185CDCF, 0x00000000, 0x00000000, 0x00000000, 0x00000000, 0x00000000, 0x00000000, 0x00000000, 0x00000000, 0x00000000, 0x00000000, 0x00000000, 0x00000040],
      0x062189BE, 0x2CEB3FA1, 0x092C0272, 0x4628AE38, 0x88CC2CAA)"
  by (simp add: upt_0 roundStep_def mixWord_def RotateLeft32_def K0_def K1_def K2_def K3_def)

lemma rounds_password_1: "fold roundStep [20..<40]
     ([0xE0C2E6E7, 0xEEDEE4C8, 0x00000081, 0xC185CDCF, 0x00000000, 0x00000000, 0x00000000, 0x00000000, 0x00000000, 0x00000000, 0x00000000, 0x00000000, 0x00000000, 0x00000000, 0x00000000, 0x00000040],
      0x062189BE, 0x2CEB3FA1, 0x092C0272, 0x4628AE38, 0x88CC2CAA) =
     ([0x9952CF47, 0x66C64A92, 0x30B9BBFE, 0xB1AE0F04, 0x68BCEDC4, 0xCC58CEA2, 0x69655360, 0x76F764C7, 0xC185CFCB, 0xDBAAFEAE, 0x76F72645, 0x00000408, 0x0C2E6E7E, 0xEDEE4E0E, 0xC792F2E0, 0xB31632AA],
      0xAA41935E, 0x1026EB8A, 0x8923D97A, 0xC0E00C15, 0x1FDDD1B6)"
  by (simp add: upt_20 roundStep_def mixWord_def RotateLeft32_def K0_def K1_def K2_def K3_def)

lemma rounds_password_2: "fold roundStep [40..<60]
     ([0x9952CF47, 0x66C64A92, 0x30B9BBFE, 0xB1AE0F04, 0x68BCEDC4, 0xCC58CEA2, 0x69655360, 0x76F764C7, 0xC185CFCB, 0xDBAAFEAE, 0x76F72645, 0x00000408, 0x0C2E6E7E, 0xEDEE4E0E, 0xC792F2E0, 0xB31632AA],
      0xAA41935E, 0x1026EB8A, 0x8923D97A, 0xC0E00C15, 0x1FDDD1B6) =
     ([0x740B38D7, 0xE5EE13CE, 0x96553C1A, 0x713DA5B4, 0xE4218519, 0xF7CB5CF5, 0xA24B59B7, 0xA18B8288, 0x7C3D35E2, 0xBDAB4EF7, 0xB1ADFEE0, 0xD6F907F1, 0x16276FE6, 0xD71F3805, 0x0D8C8AD8, 0x6A00E633],
      0x3CE0B6EA, 0x52D1A984, 0xBA0B6E3E, 0x2247F434, 0x8EAEF950)"
  by (simp add: upt_40 roundStep_def mixWord_def RotateLeft32_def K0_def K1_def K2_def K3_def)

lemma rounds_password_3: "fold roundStep [60..<80]
     ([0x740B38D7, 0xE5EE13CE, 0x96553C1A, 0x713DA5B4, 0xE4218519, 0xF7CB5CF5, 0xA24B59B7, 0xA18B8288, 0x7C3D35E2, 0xBDAB4EF7, 0xB1ADFEE0, 0xD6F907F1, 0x16276FE6, 0xD71F3805, 0x0D8C8AD8, 0x6A00E633],
      0x3CE0B6EA, 0x52D1A984, 0xBA0B6E3E, 0x2247F434, 0x8EAEF950) =
     ([0xD12392D0, 0x6626403E, 0x2F2E2491, 0x0258D8C1, 0x481D8261, 0x1F380557, 0x8C8AD80D, 0x00E6376A, 0x0716B90A, 0x03FDA26B, 0x344F6176, 0x4A8B3CFA, 0xAB934A71, 0x1397939B, 0x1A935D6A, 0x323AD11D],
      0xF4653EE3, 0xD9EB93B6, 0x6DC7480D, 0x5CC5DEA5, 0xBB13ADE8)"
  by (simp add: upt_60 roundStep_def mixWord_def RotateLeft32_def K0_def K1_def K2_def K3_def)

lemma rounds_password: "fold roundStep [0..<80]
     ([0x70617373, 0x776F7264, 0x80000000, 0x00000000, 0x00000000, 0x00000000, 0x00000000, 0x00000000, 0x00000000, 0x00000000, 0x00000000, 0x00000000, 0x00000000, 0x00000000, 0x00000000, 0x00000040],
      0x67452301, 0xEFCDAB89, 0x98BADCFE, 0x10325476, 0xC3D2E1F0) =
     ([0xD12392D0, 0x6626403E, 0x2F2E2491, 0x0258D8C1, 0x481D8261, 0x1F380557, 0x8C8AD80D, 0x00E6376A, 0x0716B90A, 0x03FDA26B, 0x344F6176, 0x4A8B3CFA, 0xAB934A71, 0x1397939B, 0x1A935D6A, 0x323AD11D],
      0xF4653EE3, 0xD9EB93B6, 0x6DC7480D, 0x5CC5DEA5, 0xBB13ADE8)"
  by (simp only: upt_80_split fold_append comp_apply rounds_password_0 rounds_password_1 rounds_password_2 rounds_password_3)

lemma blockChunk_password: "blockChunk (0x67452301, 0xEFCDAB89, 0x98BADCFE, 0x10325476, 0xC3D2E1F0)
    [0x70, 0x61, 0x73, 0x73, 0x77, 0x6F, 0x72, 0x64, 0x80, 0x00, 0x00, 0x00, 0x00, 0x00, 0x00, 0x00, 0x00, 0x00, 0x00, 0x00, 0x00, 0x00, 0x00, 0x00, 0x00, 0x00, 0x00, 0x00, 0x00, 0x00, 0x00, 0x00, 0x00, 0x00, 0x00, 0x00, 0x00, 0x00, 0x00, 0x00, 0x00, 0x00, 0x00, 0x00, 0x00, 0x00, 0x00, 0x00, 0x00, 0x00, 0x00, 0x00, 0x00, 0x00, 0x00, 0x00, 0x00, 0x00, 0x00, 0x00, 0x00, 0x00, 0x00, 0x40] =
    (0x5BAA61E4, 0xC9B93F3F, 0x0682250B, 0x6CF8331B, 0x7EE68FD8)"
  by (simp add: blockChunk_def loadWords_password rounds_password)

lemma sha1_Sum_password: "sha1_Sum (bytesOf ''password'') =
    [0x5B, 0xAA, 0x61, 0xE4, 0xC9, 0xB9, 0x3F, 0x3F, 0x06, 0x82, 0x25, 0x0B, 0x6C, 0xF8, 0x33, 0x1B, 0x7E, 0xE6, 0x8F, 0xD8]"
proof -
  let ?block = "[0x70, 0x61, 0x73, 0x73, 0x77, 0x6F, 0x72, 0x64, 0x80, 0x00, 0x00, 0x00, 0x00, 0x00, 0x00, 0x00, 0x00, 0x00, 0x00, 0x00, 0x00, 0x00, 0x00, 0x00, 0x00, 0x00, 0x00, 0x00, 0x00, 0x00, 0x00, 0x00, 0x00, 0x00, 0x00, 0x00, 0x00, 0x00, 0x00, 0x00, 0x00, 0x00, 0x00, 0x00, 0x00, 0x00, 0x00, 0x00, 0x00, 0x00, 0x00, 0x00, 0x00, 0x00, 0x00, 0x00, 0x00, 0x00, 0x00, 0x00, 0x00, 0x00, 0x00, 0x40] :: byte list"
  have len: "length (bytesOf ''password'') = 8"
    by (simp add: bytesOf_password)
  have blk: "bytesOf ''password'' @ padding 8 = ?block"
    by (simp add: bytesOf_password padding_password)
  have one: "blockGeneric (0x67452301, 0xEFCDAB89, 0x98BADCFE, 0x10325476, 0xC3D2E1F0) ?block = blockGeneric (0x5BAA61E4, 0xC9B93F3F, 0x0682250B, 0x6CF8331B, 0x7EE68FD8) []"
    by (subst blockGeneric.simps) (simp add: blockChunk_password)
  have two: "blockGeneric (0x5BAA61E4, 0xC9B93F3F, 0x0682250B, 0x6CF8331B, 0x7EE68FD8) [] = (0x5BAA61E4, 0xC9B93F3F, 0x0682250B, 0x6CF8331B, 0x7EE68FD8)"
    by (subst blockGeneric.simps) simp
  have "blockGeneric (init0, init1, init2, init3, init4) (bytesOf ''password'' @ padding (length (bytesOf ''password''))) = (0x5BAA61E4, 0xC9B93F3F, 0x0682250B, 0x6CF8331B, 0x7EE68FD8)"
    unfolding len blk init0_def init1_def init2_def init3_def init4_def one two ..
  then show ?thesis
    by (simp add: sha1_Sum_def PutUint32_def upt_rec)
qed

lemma fullHash_password: "ToUpper (Sprintf_x (sha1_Sum (bytesOf ''password''))) =
    ''5BAA61E4C9B93F3F0682250B6CF8331B7EE68FD8''"
  by (simp add: sha1_Sum_password Sprintf_x_def ldigits_def ToUpper_def upperByte_def char_of_def bit_Suc bit_0)

lemma getHash_password: "getHash ''password'' =
    Returns \<lparr>Hash = ''5BAA61E4C9B93F3F0682250B6CF8331B7EE68FD8'', Range = ''5BAA6''\<rparr>"
  by (simp add: getHash_Returns fullHash_password)

lemma bytesOf_empty: "bytesOf '''' = []"
  by (simp add: bytesOf_def)

lemma padding_empty: "padding 0 =
    [0x80, 0x00, 0x00, 0x00, 0x00, 0x00, 0x00, 0x00, 0x00, 0x00, 0x00, 0x00, 0x00, 0x00, 0x00, 0x00, 0x00, 0x00, 0x00, 0x00, 0x00, 0x00, 0x00, 0x00, 0x00, 0x00, 0x00, 0x00, 0x00, 0x00, 0x00, 0x00, 0x00, 0x00, 0x00, 0x00, 0x00, 0x00, 0x00, 0x00, 0x00, 0x00, 0x00, 0x00, 0x00, 0x00, 0x00, 0x00, 0x00, 0x00, 0x00, 0x00, 0x00, 0x00, 0x00, 0x00, 0x00, 0x00, 0x00, 0x00, 0x00, 0x00, 0x00, 0x00]"
proof -
  have r: "replicate 55 (0::byte) = [0x00, 0x00, 0x00, 0x00, 0x00, 0x00, 0x00, 0x00, 0x00, 0x00, 0x00, 0x00, 0x00, 0x00, 0x00, 0x00, 0x00, 0x00, 0x00, 0x00, 0x00, 0x00, 0x00, 0x00, 0x00, 0x00, 0x00, 0x00, 0x00, 0x00, 0x00, 0x00, 0x00, 0x00, 0x00, 0x00, 0x00, 0x00, 0x00, 0x00, 0x00, 0x00, 0x00, 0x00, 0x00, 0x00, 0x00, 0x00, 0x00, 0x00, 0x00, 0x00, 0x00, 0x00, 0x00]"
    by (simp add: eval_nat_numeral)
  have p: "PutUint64 0 = [0x00, 0x00, 0x00, 0x00, 0x00, 0x00, 0x00, 0x00]"
    by (simp add: PutUint64_def upt_rec)
  show ?thesis
    by (simp add: padding_def r p)
qed

lemma loadWords_empty: "loadWords
    [0x80, 0x00, 0x00, 0x00, 0x00, 0x00, 0x00, 0x00, 0x00, 0x00, 0x00, 0x00, 0x00, 0x00, 0x00, 0x00, 0x00, 0x00, 0x00, 0x00, 0x00, 0x00, 0x00, 0x00, 0x00, 0x00, 0x00, 0x00, 0x00, 0x00, 0x00, 0x00, 0x00, 0x00, 0x00, 0x00, 0x00, 0x00, 0x00, 0x00, 0x00, 0x00, 0x00, 0x00, 0x00, 0x00, 0x00, 0x00, 0x00, 0x00, 0x00, 0x00, 0x00, 0x00, 0x00, 0x00, 0x00, 0x00, 0x00, 0x00, 0x00, 0x00, 0x00, 0x00] =
    [0x80000000, 0x00000000, 0x00000000, 0x00000000, 0x00000000, 0x00000000, 0x00000000, 0x00000000, 0x00000000, 0x00000000, 0x00000000, 0x00000000, 0x00000000, 0x00000000, 0x00000000, 0x00000000]"
  by (simp add: loadWords_def upt_rec)

lemma rounds_empty_0: "fold roundStep [0..<20]
     ([0x80000000, 0x00000000, 0x00000000, 0x00000000, 0x00000000, 0x00000000, 0x00000000, 0x00000000, 0x00000000, 0x00000000, 0x00000000, 0x00000000, 0x00000000, 0x00000000, 0x00000000, 0x00000000],
      0x67452301, 0xEFCDAB89, 0x98BADCFE, 0x10325476, 0xC3D2E1F0) =
     ([0x00000001, 0x00000000, 0x00000000, 0x00000002, 0x00000000, 0x00000000, 0x00000000, 0x00000000, 0x00000000, 0x00000000, 0x00000000, 0x00000000, 0x00000000, 0x00000000, 0x00000000, 0x00000000],
      0xE758E8DA, 0x0B3088DD, 0x8A2A5483, 0xC1AFE45C, 0xF63F5951)"
  by (simp add: upt_0 roundStep_def mixWord_def RotateLeft32_def K0_def K1_def K2_def K3_def)

lemma rounds_empty_1: "fold roundStep [20..<40]
     ([0x00000001, 0x00000000, 0x00000000, 0x00000002, 0x00000000, 0x00000000, 0x00000000, 0x00000000, 0x00000000, 0x00000000, 0x00000000, 0x00000000, 0x00000000, 0x00000000, 0x00000000, 0x00000000],
      0xE758E8DA, 0x0B3088DD, 0x8A2A5483, 0xC1AFE45C, 0xF63F5951) =
     ([0x00000006, 0x00000000, 0x00000040, 0x00000008, 0x00000028, 0x00000080, 0x00000008, 0x00000000, 0x00000002, 0x00000008, 0x00000000, 0x00000000, 0x00000010, 0x00000000, 0x0000000A, 0x00000020],
      0x9BDBDD71, 0x62273351, 0xEC805E22, 0x413C1D9A, 0x2AEEAE62)"
  by (simp add: upt_20 roundStep_def mixWord_def RotateLeft32_def K0_def K1_def K2_def K3_def)

lemma rounds_empty_2: "fold roundStep [40..<60]
     ([0x00000006, 0x00000000, 0x00000040, 0x00000008, 0x00000028, 0x00000080, 0x00000008, 0x00000000, 0x00000002, 0x00000008, 0x00000000, 0x00000000, 0x00000010, 0x00000000, 0x0000000A, 0x00000020],
      0x9BDBDD71, 0x62273351, 0xEC805E22, 0x413C1D9A, 0x2AEEAE62) =
     ([0x0000029C, 0x00000800, 0x00000080, 0x00000028, 0x00001088, 0x00000000, 0x00000A40, 0x00002000, 0x00000668, 0x00000080, 0x00004088, 0x00000880, 0x00000064, 0x00000000, 0x00000408, 0x00000088],
      0x9B9D2913, 0x982BCBCA, 0xB86BEAC8, 0xC5A3382E, 0xAF9292FA)"
  by (simp add: upt_40 roundStep_def mixWord_def RotateLeft32_def K0_def K1_def K2_def K3_def)

lemma rounds_empty_3: "fold roundStep [60..<80]
     ([0x0000029C, 0x00000800, 0x00000080, 0x00000028, 0x00001088, 0x00000000, 0x00000A40, 0x00002000, 0x00000668, 0x00000080, 0x00004088, 0x00000880, 0x00000064, 0x00000000, 0x00000408, 0x00000088],
      0x9B9D2913, 0x982BCBCA, 0xB86BEAC8, 0xC5A3382E, 0xAF9292FA) =
     ([0x000108E8, 0x00000000, 0x0000A000, 0x00020080, 0x00006400, 0x00000000, 0x00040800, 0x00008800, 0x00029C10, 0x00080000, 0x00008080, 0x00002820, 0x001088C0, 0x00000000, 0x000A40C0, 0x00200080],
      0x72F480ED, 0x6E9D9F84, 0x999AE2F1, 0x852DC41A, 0xEC052519)"
  by (simp add: upt_60 roundStep_def mixWord_def RotateLeft32_def K0_def K1_def K2_def K3_def)

lemma rounds_empty: "fold roundStep [0..<80]
     ([0x80000000, 0x00000000, 0x00000000, 0x00000000, 0x00000000, 0x00000000, 0x00000000, 0x00000000, 0x00000000, 0x00000000, 0x00000000, 0x00000000, 0x00000000, 0x00000000, 0x00000000, 0x00000000],
      0x67452301, 0xEFCDAB89, 0x98BADCFE, 0x10325476, 0xC3D2E1F0) =
     ([0x000108E8, 0x00000000, 0x0000A000, 0x00020080, 0x00006400, 0x00000000, 0x00040800, 0x00008800, 0x00029C10, 0x00080000, 0x00008080, 0x00002820, 0x001088C0, 0x00000000, 0x000A40C0, 0x00200080],
      0x72F480ED, 0x6E9D9F84, 0x999AE2F1, 0x852DC41A, 0xEC052519)"
  by (simp only: upt_80_split fold_append comp_apply rounds_empty_0 rounds_empty_1 rounds_empty_2 rounds_empty_3)

lemma blockChunk_empty: "blockChunk (0x67452301, 0xEFCDAB89, 0x98BADCFE, 0x10325476, 0xC3D2E1F0)
    [0x80, 0x00, 0x00, 0x00, 0x00, 0x00, 0x00, 0x00, 0x00, 0x00, 0x00, 0x00, 0x00, 0x00, 0x00, 0x00, 0x00, 0x00, 0x00, 0x00, 0x00, 0x00, 0x00, 0x00, 0x00, 0x00, 0x00, 0x00, 0x00, 0x00, 0x00, 0x00, 0x00, 0x00, 0x00, 0x00, 0x00, 0x00, 0x00, 0x00, 0x00, 0x00, 0x00, 0x00, 0x00, 0x00, 0x00, 0x00, 0x00, 0x00, 0x00, 0x00, 0x00, 0x00, 0x00, 0x00, 0x00, 0x00, 0x00, 0x00, 0x00, 0x00, 0x00, 0x00] =
    (0xDA39A3EE, 0x5E6B4B0D, 0x3255BFEF, 0x95601890, 0xAFD80709)"
  by (simp add: blockChunk_def loadWords_empty rounds_empty)

lemma sha1_Sum_empty: "sha1_Sum (bytesOf '''') =
    [0xDA, 0x39, 0xA3, 0xEE, 0x5E, 0x6B, 0x4B, 0x0D, 0x32, 0x55, 0xBF, 0xEF, 0x95, 0x60, 0x18, 0x90, 0xAF, 0xD8, 0x07, 0x09]"
proof -
  let ?block = "[0x80, 0x00, 0x00, 0x00, 0x00, 0x00, 0x00, 0x00, 0x00, 0x00, 0x00, 0x00, 0x00, 0x00, 0x00, 0x00, 0x00, 0x00, 0x00, 0x00, 0x00, 0x00, 0x00, 0x00, 0x00, 0x00, 0x00, 0x00, 0x00, 0x00, 0x00, 0x00, 0x00, 0x00, 0x00, 0x00, 0x00, 0x00, 0x00, 0x00, 0x00, 0x00, 0x00, 0x00, 0x00, 0x00, 0x00, 0x00, 0x00, 0x00, 0x00, 0x00, 0x00, 0x00, 0x00, 0x00, 0x00, 0x00, 0x00, 0x00, 0x00, 0x00, 0x00, 0x00] :: byte list"
  have len: "length (bytesOf '''') = 0"
    by (simp add: bytesOf_empty)
  have blk: "bytesOf '''' @ padding 0 = ?block"
    by (simp add: bytesOf_empty padding_empty)
  have one: "blockGeneric (0x67452301, 0xEFCDAB89, 0x98BADCFE, 0x10325476, 0xC3D2E1F0) ?block = blockGeneric (0xDA39A3EE, 0x5E6B4B0D, 0x3255BFEF, 0x95601890, 0xAFD80709) []"
    by (subst blockGeneric.simps) (simp add: blockChunk_empty)
  have two: "blockGeneric (0xDA39A3EE, 0x5E6B4B0D, 0x3255BFEF, 0x95601890, 0xAFD80709) [] = (0xDA39A3EE, 0x5E6B4B0D, 0x3255BFEF, 0x95601890, 0xAFD80709)"
    by (subst blockGeneric.simps) simp
  have "blockGeneric (init0, init1, init2, init3, init4) (bytesOf '''' @ padding (length (bytesOf ''''))) = (0xDA39A3EE, 0x5E6B4B0D, 0x3255BFEF, 0x95601890, 0xAFD80709)"
    unfolding len blk init0_def init1_def init2_def init3_def init4_def one two ..
  then show ?thesis
    by (simp add: sha1_Sum_def PutUint32_def upt_rec)
qed

lemma fullHash_empty: "ToUpper (Sprintf_x (sha1_Sum (bytesOf ''''))) =
    ''DA39A3EE5E6B4B0D3255BFEF95601890AFD80709''"
  by (simp add: sha1_Sum_empty Sprintf_x_def ldigits_def ToUpper_def upperByte_def char_of_def bit_Suc bit_0)

lemma getHash_empty: "getHash '''' =
    Returns \<lparr>Hash = ''DA39A3EE5E6B4B0D3255BFEF95601890AFD80709'', Range = ''DA39A''\<rparr>"
  by (simp add: getHash_Returns fullHash_empty)

section \<open>Splitting and scanning\<close>

text \<open>
The pieces of \<^verbatim>\<open>strings.Split\<close>, and the loop of \<^verbatim>\<open>IsPwned\<close> one line at a time:
a line without a colon panics at \<^verbatim>\<open>components[1]\<close>, a matching line decides, any
other line is stepped over.
\<close>

lemma Split_Nil: "sep \<noteq> [] \<Longrightarrow> Split [] sep = [[]]"
  by (subst Split.simps) simp

lemma Split_Cons:
  "sep \<noteq> [] \<Longrightarrow> Split (c # s) sep =
     (if take (length sep) (c # s) = sep then [] # Split (drop (length sep) (c # s)) sep
      else (case Split s sep of [] \<Rightarrow> [[c]] | p # ps \<Rightarrow> (c # p) # ps))"
  by (subst Split.simps) (simp split: list.splits)

lemma Split_not_Nil: "sep \<noteq> [] \<Longrightarrow> Split s sep \<noteq> []"
proof (induction s sep rule: Split.induct)
  case (1 s sep)
  show ?case
  proof (cases s)
    case Nil
    with 1 show ?thesis by (simp add: Split_Nil)
  next
    case (Cons c cs)
    with 1 show ?thesis by (simp add: Split_Cons split: list.splits)
  qed
qed

lemma Split_colon_Cons:
  "Split (c # s) '':'' =
     (if c = CHR '':'' then [] # Split s '':''
      else (case Split s '':'' of [] \<Rightarrow> [[c]] | p # ps \<Rightarrow> (c # p) # ps))"
  by (simp add: Split_Cons)

lemma hasColon_iff: "hasColon line \<longleftrightarrow> CHR '':'' \<in> set line"
proof -
  have ne: "Split s '':'' \<noteq> []" for s by (simp add: Split_not_Nil)
  have "length (Split line '':'') = Suc (length (filter (\<lambda>c. c = CHR '':'') line))"
  proof (induction line)
    case Nil
    show ?case by (simp add: Split_Nil)
  next
    case (Cons c cs)
    then show ?case using ne [of cs]
      by (cases "Split cs '':''") (simp_all add: Split_colon_Cons)
  qed
  then show ?thesis
    by (auto simp: hasColon_def filter_empty_conv Suc_le_eq)
qed

lemma suffixOf_takeWhile: "suffixOf line = takeWhile (\<lambda>c. c \<noteq> CHR '':'') line"
proof (induction line)
  case Nil
  show ?case by (simp add: suffixOf_def Split_Nil)
next
  case (Cons c cs)
  then show ?case using Split_not_Nil [of "'':''" cs]
    by (cases "Split cs '':''") (simp_all add: suffixOf_def Split_colon_Cons)
qed

lemma scanLines_Cons:
  "scanLines hash (line # lines) =
     (if \<not> hasColon line then Panics IndexOutOfRange
      else if matches hash line then
        (case ParseUint (countOf line) of
           Inl err \<Rightarrow> Returns (None, Some err)
         | Inr count \<Rightarrow> Returns (Some \<lparr>Pwned = True, TimesObserved = count\<rparr>, None))
      else scanLines hash lines)"
proof -
  have "Split line '':'' \<noteq> []" by (simp add: Split_not_Nil)
  then have "0 < length (Split line '':'')" by simp
  then show ?thesis
    by (auto simp: index_def hasColon_def matches_def suffixOf_def countOf_def hd_conv_nth Let_def)
qed

lemma scanLines_passes:
  "list_all (passes hash) pre \<Longrightarrow> scanLines hash (pre @ lines) = scanLines hash lines"
  by (induction pre) (simp_all add: scanLines_Cons passes_def del: scanLines.simps)

lemma scanLines_find:
  "list_all hasColon lines \<Longrightarrow>
   scanLines hash lines =
     (case find (matches hash) lines of
        None \<Rightarrow> Returns (Some \<lparr>Pwned = False, TimesObserved = 0\<rparr>, None)
      | Some line \<Rightarrow>
          (case ParseUint (countOf line) of
             Inl err \<Rightarrow> Returns (None, Some err)
           | Inr count \<Rightarrow> Returns (Some \<lparr>Pwned = True, TimesObserved = count\<rparr>, None)))"
  by (induction lines) (simp_all add: scanLines_Cons del: scanLines.simps(2))

lemma scanLines_scanned:
  "list_all hasColon (scanned hash lines) \<Longrightarrow>
   scanLines hash lines =
     (case find (matches hash) lines of
        None \<Rightarrow> Returns (Some \<lparr>Pwned = False, TimesObserved = 0\<rparr>, None)
      | Some line \<Rightarrow>
          (case ParseUint (countOf line) of
             Inl err \<Rightarrow> Returns (None, Some err)
           | Inr count \<Rightarrow> Returns (Some \<lparr>Pwned = True, TimesObserved = count\<rparr>, None)))"
  by (induction lines) (auto simp: scanLines_Cons scanned_def simp del: scanLines.simps(2) split: if_splits)

lemma scanLines_answer:
  "scanLines hash lines = Returns (r, e) \<Longrightarrow> (r = None) \<noteq> (e = None)"
  by (induction lines) (auto simp: scanLines_Cons simp del: scanLines.simps(2) split: if_splits sum.splits)

lemma IsPwned_Body:
  "getHash password = Returns hash \<Longrightarrow> server net (rangeURL @ Range hash) = Body body \<Longrightarrow>
   IsPwned password net =
     (scanLines hash (Split body CRLF), net\<lparr>sent := sent net @ [rangeURL @ Range hash]\<rparr>)"
  by (simp add: IsPwned_def http_Get_def)

section \<open>What ParseUint accepts\<close>

text \<open>
The loop of \<^verbatim>\<open>ParseUint\<close> returns a number exactly for a non-empty string of
decimal digits whose value is below \<open>2 ^ 64\<close>; the cutoff test and the wrap-around
test together catch every overflow.
\<close>

lemma unat_of_char: "unat (of_char c :: byte) = of_char c"
proof -
  have "unat (of_nat (of_char c) :: byte) = of_char c mod 256"
    by (simp add: unat_of_nat)
  then show ?thesis
    using nat_of_char_less_256 [of c] by (simp add: of_nat_of_char)
qed

lemma letter_ge_10: "(0x61 :: byte) \<le> x \<Longrightarrow> x \<le> 0x7A \<Longrightarrow> 10 \<le> x - 0x61 + 10"
  by unat_arith

lemma digit_sub: "(0x30 :: byte) \<le> x \<Longrightarrow> x \<le> 0x39 \<Longrightarrow> unat (x - 0x30) = unat x - 48 \<and> x - 0x30 < 10"
  by unat_arith

lemma decAcc_ge: "a \<le> decAcc a s"
proof (induction s arbitrary: a)
  case Nil
  show ?case by (simp add: decAcc_def)
next
  case (Cons c cs)
  have "a \<le> 10 * a + (of_char c - 48)" by simp
  also have "\<dots> \<le> decAcc (10 * a + (of_char c - 48)) cs" by (rule Cons.IH)
  finally show ?case by (simp add: decAcc_def)
qed

lemma digitVal_isDigit:
  assumes "isDigit c"
  shows "\<exists>d. digitVal (of_char c) = Some d \<and> d < 10 \<and> unat d = of_char c - 48"
proof -
  have b: "(0x30 :: byte) \<le> of_char c \<and> (of_char c :: byte) \<le> 0x39"
    using assms by (simp add: isDigit_def word_le_nat_alt unat_of_char)
  then show ?thesis
    using digit_sub [of "of_char c"] by (simp add: digitVal_def unat_of_char)
qed

lemma digitVal_not_isDigit:
  assumes "\<not> isDigit c" and "digitVal (of_char c) = Some d"
  shows "10 \<le> d"
proof -
  have b: "\<not> ((0x30 :: byte) \<le> of_char c \<and> (of_char c :: byte) \<le> 0x39)"
    using assms(1) by (simp add: isDigit_def word_le_nat_alt unat_of_char)
  with assms(2) show ?thesis
    using letter_ge_10 [of "lower (of_char c)"]
    by (auto simp: digitVal_def split: if_splits)
qed

lemma parseLoop_Inr:
  "parseLoop n cs = Inr m \<longleftrightarrow>
     list_all isDigit cs \<and> decAcc (unat n) cs < 2 ^ 64 \<and> m = of_nat (decAcc (unat n) cs)"
proof (induction cs arbitrary: n)
  case Nil
  have "unat n < 2 ^ 64" using unsigned_less [of n] by simp
  then show ?case by (auto simp: decAcc_def)
next
  case (Cons c cs)
  show ?case
  proof (cases "isDigit c")
    case False
    then show ?thesis
      using digitVal_not_isDigit [of c]
      by (auto split: option.splits)
  next
    case True
    then obtain d where d: "digitVal (of_char c) = Some d" "d < 10" "unat d = of_char c - 48"
      using digitVal_isDigit by blast
    have d10: "unat d < 10" using d(2) by (simp add: word_less_nat_alt)
    have step: "decAcc (unat n) (c # cs) = decAcc (10 * unat n + unat d) cs"
      by (simp add: decAcc_def d(3))
    have ucd: "unat (ucast d :: uint64) = unat d"
      using d10 by (simp add: unsigned_ucast_eq take_bit_nat_eq_self)
    show ?thesis
    proof (cases "n \<ge> cutoff")
      case True
      then have "1844674407370955162 \<le> unat n"
        by (simp add: cutoff_def word_le_nat_alt)
      then have "2 ^ 64 \<le> 10 * unat n + unat d" by simp
      also have "\<dots> \<le> decAcc (10 * unat n + unat d) cs" by (rule decAcc_ge)
      finally have "\<not> decAcc (unat n) (c # cs) < 2 ^ 64" by (simp add: step)
      with True d \<open>isDigit c\<close> show ?thesis by (simp add: not_le [symmetric])
    next
      case False
      then have small: "unat n < 1844674407370955162"
        by (simp add: cutoff_def word_le_nat_alt)
      have mul: "unat (n * 10) = unat n * 10"
        using small unat_mult_lem [of n "10 :: uint64"] by simp
      show ?thesis
      proof (cases "n * 10 + ucast d < n * 10")
        case True
        then have "\<not> (n * 10 \<le> n * 10 + ucast d)" by simp
        then have "2 ^ 64 \<le> unat (n * 10) + unat (ucast d :: uint64)"
          by (simp add: no_olen_add_nat)
        then have "2 ^ 64 \<le> 10 * unat n + unat d" by (simp add: mul ucd)
        also have "\<dots> \<le> decAcc (10 * unat n + unat d) cs" by (rule decAcc_ge)
        finally have "\<not> decAcc (unat n) (c # cs) < 2 ^ 64" by (simp add: step)
        with True False d \<open>isDigit c\<close> show ?thesis by (simp add: not_le [symmetric] Let_def)
      next
        case nov: False
        then have "n * 10 \<le> n * 10 + ucast d" by simp
        then have n1: "unat (n * 10 + ucast d) = 10 * unat n + unat d"
          by (simp add: unat_plus_simple mul ucd)
        have "unat maxVal = 18446744073709551615" by (simp add: maxVal_def)
        moreover have "unat (n * 10 + ucast d) < 2 ^ 64"
          using unsigned_less [of "n * 10 + ucast d"] by simp
        ultimately have "n * 10 + ucast d \<le> maxVal" by (simp add: word_le_nat_alt)
        then have mv: "\<not> n * 10 + ucast d > maxVal"
          by (simp add: not_less)
        show ?thesis
          using nov False d \<open>isDigit c\<close> mv Cons.IH [of "n * 10 + ucast d"]
          by (simp add: not_le [symmetric] Let_def n1 step)
      qed
    qed
  qed
qed

lemma ParseUint_Inr:
  "ParseUint s = Inr m \<longleftrightarrow> s \<noteq> [] \<and> list_all isDigit s \<and> decVal s < 2 ^ 64 \<and> m = of_nat (decVal s)"
  using parseLoop_Inr [of 0 s m]
  by (auto simp: ParseUint_def decVal_def decAcc_def split: sum.splits)

lemma ParseUint_Inl:
  "ParseUint s = Inl e \<Longrightarrow> \<exists>k. e = NumError s k"
  by (auto simp: ParseUint_def split: sum.splits if_splits)

lemma unat_of_nat_uint64: "n < 2 ^ 64 \<Longrightarrow> unat (of_nat n :: uint64) = n"
  by (simp add: unat_of_nat)

section \<open>Evaluating concrete responses\<close>

lemma IsPwned_answering:
  "getHash password = Returns hash \<Longrightarrow>
   fst (IsPwned password \<lparr>server = answering body, sent = []\<rparr>) = scanLines hash (Split body CRLF)"
  by (simp add: IsPwned_Body answering_def)

lemma Split_CRLF_Nil: "Split [] [CHR 0x0D, CHR 0x0A] = [[]]"
  by (simp add: Split_Nil)

lemma Split_CRLF_Cons:
  "Split (c # s) [CHR 0x0D, CHR 0x0A] =
     (if c = CHR 0x0D \<and> take 1 s = [CHR 0x0A] then [] # Split (drop 1 s) [CHR 0x0D, CHR 0x0A]
      else (case Split s [CHR 0x0D, CHR 0x0A] of [] \<Rightarrow> [[c]] | p # ps \<Rightarrow> (c # p) # ps))"
  by (simp add: Split_Cons)

lemmas eval_body = CRLF_def Split_CRLF_Nil Split_CRLF_Cons

lemmas eval_line = hasColon_def matches_def suffixOf_def countOf_def Split_colon_Cons Split_Nil

lemma parse1: "ParseUint ''3730471'' = Inr 3730471"
  by (simp add: ParseUint_Inr isDigit_def decVal_def)

lemma parse2: "ParseUint ''abc'' = Inl (NumError ''abc'' ErrSyntax)"
  by (simp add: ParseUint_def digitVal_def lower_def)

lemma hit1: "hasColon ''1E4C9B93F3F0682250B6CF8331B7EE68FD8:3730471''
  \<and> matches \<lparr>Hash = ''5BAA61E4C9B93F3F0682250B6CF8331B7EE68FD8'', Range = ''5BAA6''\<rparr> ''1E4C9B93F3F0682250B6CF8331B7EE68FD8:3730471''
  \<and> countOf ''1E4C9B93F3F0682250B6CF8331B7EE68FD8:3730471'' = ''3730471''"
  by (simp add: eval_line)

section \<open>The request sent and the line reached\<close>

lemma ParseUint_cases:
  "(isUint64Numeral s \<and> ParseUint s = Inr (of_nat (decVal s)))
   \<or> (\<not> isUint64Numeral s \<and> (\<exists>k. ParseUint s = Inl (NumError s k)))"
proof (cases "ParseUint s")
  case (Inl e)
  then show ?thesis
    using ParseUint_Inl [of s e] ParseUint_Inr [of s "of_nat (decVal s)"]
    by (auto simp: isUint64Numeral_def)
next
  case (Inr m)
  then show ?thesis
    using ParseUint_Inr [of s m] by (simp add: isUint64Numeral_def)
qed

lemma sent_IsPwned:
  "getHash p = Returns h \<Longrightarrow> sent (snd (IsPwned p net)) = sent net @ [rangeURL @ Range h]"
  by (simp add: IsPwned_def http_Get_def split: http_response.splits)

lemma IsPwned_returned_pair:
  "fst (IsPwned password net) = Returns (r, e) \<Longrightarrow> (r = None) \<noteq> (e = None)"
  using scanLines_answer
  by (auto simp: IsPwned_def http_Get_def getHash_Returns split: http_response.splits)

lemmas eval_scan = eval_body scanLines_Cons eval_line

lemma scan_reaches:
  assumes "getHash password = Returns hash"
    and "server net (rangeURL @ Range hash) = Body body"
    and "Split body CRLF = pre @ line # post"
    and "list_all (passes hash) pre"
    and "hasColon line" and "matches hash line"
  shows "fst (IsPwned password net) =
           (case ParseUint (countOf line) of
              Inl err \<Rightarrow> Returns (None, Some err)
            | Inr count \<Rightarrow> Returns (Some \<lparr>Pwned = True, TimesObserved = count\<rparr>, None))"
  using assms
  by (simp add: IsPwned_Body scanLines_passes scanLines_Cons del: scanLines.simps(2))

section \<open>One write to a fresh hasher\<close>

text \<open>
  \<^verbatim>\<open>Write\<close> behaves as if the buffer and the new bytes were one string: it hashes
  every full chunk and keeps the rest. So a fresh hasher that was written a message
  sums to the digest of that message, and \<^verbatim>\<open>checkSum\<close> never panics on it.
\<close>

lemma blockGeneric_short: "length p < 64 \<Longrightarrow> blockGeneric h p = h"
  by (subst blockGeneric.simps) simp

lemma blockGeneric_append:
  "length a mod 64 = 0 \<Longrightarrow> blockGeneric h (a @ b) = blockGeneric (blockGeneric h a) b"
proof (induction h a rule: blockGeneric.induct)
  case (1 h a)
  show ?case
  proof (cases "64 \<le> length a")
    case True
    then have m: "length (drop 64 a) mod 64 = 0"
      using "1.prems" by (simp add: le_mod_geq)
    have "blockGeneric h (a @ b) = blockGeneric (blockChunk h (take 64 a)) (drop 64 a @ b)"
      using True by (subst blockGeneric.simps) simp
    also have "\<dots> = blockGeneric (blockGeneric (blockChunk h (take 64 a)) (drop 64 a)) b"
      using True m by (rule "1.IH")
    also have "blockGeneric (blockChunk h (take 64 a)) (drop 64 a) = blockGeneric h a"
      using True by (subst (2) blockGeneric.simps) simp
    finally show ?thesis .
  next
    case False
    then have "a = []" using "1.prems" by auto
    then show ?thesis by (simp add: blockGeneric_short)
  qed
qed

lemma blockGeneric_full:
  "blockGeneric h (take (length p - length p mod 64) p) = blockGeneric h p"
proof -
  let ?k = "length p - length p mod 64"
  have k: "length (take ?k p) mod 64 = 0"
    by (simp add: minus_mod_eq_mult_div)
  have "blockGeneric h p = blockGeneric h (take ?k p @ drop ?k p)" by simp
  also have "\<dots> = blockGeneric (blockGeneric h (take ?k p)) (drop ?k p)"
    using k by (rule blockGeneric_append)
  also have "\<dots> = blockGeneric h (take ?k p)"
  proof (rule blockGeneric_short)
    have "length p mod 64 < 64" by simp
    then show "length (drop ?k p) < 64" by simp
  qed
  finally show ?thesis by simp
qed

lemma full_blocks_shift: "64 + (m::nat) - (64 + m) mod 64 = 64 + (m - m mod 64)"
proof -
  have "(64 + m) mod 64 = m mod 64" by simp
  moreover have "m mod 64 \<le> m" by simp
  ultimately show ?thesis by simp
qed

lemma Write_buffered:
  assumes "length (digest_x d) < 64"
  shows "Write d p =
     \<lparr>digest_h = blockGeneric (digest_h d) (digest_x d @ p),
      digest_x = drop (length (digest_x d @ p) - length (digest_x d @ p) mod 64) (digest_x d @ p),
      digest_len = digest_len d + of_nat (length p)\<rparr>"
proof -
  obtain h x l where d: "d = \<lparr>digest_h = h, digest_x = x, digest_len = l\<rparr>"
    by (cases d) simp
  have x: "length x < 64" using assms by (simp add: d)
  show ?thesis
  proof (cases "x = []")
    case True
    show ?thesis
    proof (cases "64 \<le> length p")
      case long: True
      show ?thesis
        using True long
        by (simp add: d Write_def Let_def blockGeneric_full)
    next
      case False
      then show ?thesis
        using True
        by (simp add: d Write_def Let_def blockGeneric_short)
    qed
  next
    case False
    then have x0: "0 < length x" by simp
    show ?thesis
    proof (cases "length x + length p < 64")
      case True
      then have "min (64 - length x) (length p) = length p" by simp
      then show ?thesis
        using True x0
        by (simp add: d Write_def Let_def blockGeneric_short)
    next
      case False
      define xs where "xs = x @ take (64 - length x) p"
      define p2 where "p2 = drop (64 - length x) p"
      have n: "min (64 - length x) (length p) = 64 - length x" using False by simp
      have xs: "length xs = 64" using False x by (simp add: xs_def)
      have q: "x @ p = xs @ p2" by (simp add: xs_def p2_def)
      have h2: "blockGeneric h (x @ p) = blockGeneric (blockGeneric h xs) p2"
        unfolding q using xs by (simp add: blockGeneric_append)
      have dq: "drop (length (x @ p) - length (x @ p) mod 64) (x @ p)
                  = drop (length p2 - length p2 mod 64) p2"
      proof -
        have "length (xs @ p2) - length (xs @ p2) mod 64 = 64 + (length p2 - length p2 mod 64)"
          using xs by (simp add: full_blocks_shift)
        then show ?thesis
          unfolding q using xs by simp
      qed
      have rhs: "\<lparr>digest_h = blockGeneric (digest_h d) (digest_x d @ p),
          digest_x = drop (length (digest_x d @ p) - length (digest_x d @ p) mod 64) (digest_x d @ p),
          digest_len = digest_len d + of_nat (length p)\<rparr>
        = \<lparr>digest_h = blockGeneric (blockGeneric h xs) p2,
           digest_x = drop (length p2 - length p2 mod 64) p2,
           digest_len = l + of_nat (length p)\<rparr>"
        using h2 dq by (simp add: d)
      have W: "Write d p =
          (let d2 = \<lparr>digest_h = blockGeneric h xs, digest_x = [], digest_len = l + of_nat (length p)\<rparr>;
               (d3, p3) =
                 (if 64 \<le> length p2 then
                    (let n = length p2 - length p2 mod 64
                     in (d2\<lparr>digest_h := blockGeneric (digest_h d2) (take n p2)\<rparr>, drop n p2))
                  else (d2, p2))
            in if 0 < length p3 then d3\<lparr>digest_x := p3\<rparr> else d3)"
      proof -
        have lx: "length x + min (length p) (64 - length x) = 64" using False x by simp
        show ?thesis
          using x0 by (simp add: d Write_def Let_def n lx xs_def [symmetric] p2_def [symmetric])
      qed
      have "Write d p = \<lparr>digest_h = blockGeneric (blockGeneric h xs) p2,
           digest_x = drop (length p2 - length p2 mod 64) p2,
           digest_len = l + of_nat (length p)\<rparr>"
      proof (cases "64 \<le> length p2")
        case True
        then show ?thesis
          unfolding W by (simp add: Let_def blockGeneric_full)
      next
        case short: False
        then show ?thesis
          unfolding W by (simp add: Let_def blockGeneric_short)
      qed
      then show ?thesis by (simp only: rhs)
    qed
  qed
qed

lemma unat_len_mod: "unat ((of_nat n :: uint64) mod 64) = n mod 64"
proof -
  have "unat ((of_nat n :: uint64) mod 64) = (n mod 2 ^ 64) mod 64"
    by (simp add: unat_mod unat_of_nat)
  also have "\<dots> = n mod 64"
    by (rule mod_mod_cancel) simp
  finally show ?thesis .
qed

lemma padlen_padding:
  fixes n :: nat
  defines "len \<equiv> (of_nat n :: uint64)"
  defines "t \<equiv> (if len mod 64 < 56 then 56 - len mod 64 else 64 + 56 - len mod 64)"
  shows "take (unat t) (0x80 # replicate (64 + 8 - 1) 0) @ PutUint64 (push_bit 3 len) = padding n"
proof -
  have r: "unat (len mod 64) = n mod 64" by (simp add: len_def unat_len_mod)
  have r64: "n mod 64 < 64" by simp
  have lt: "len mod 64 < 56 \<longleftrightarrow> n mod 64 < 56"
    using r by (simp add: word_less_nat_alt)
  have t: "unat t = (if n mod 64 < 56 then 56 - n mod 64 else 64 + 56 - n mod 64)"
  proof (cases "n mod 64 < 56")
    case True
    then have "len mod 64 \<le> 56" using r by (simp add: word_le_nat_alt)
    then have "unat (56 - len mod 64) = 56 - n mod 64"
      using r by (simp add: unat_sub)
    with True lt show ?thesis by (simp add: t_def)
  next
    case False
    have "len mod 64 \<le> 64 + 56" using r r64 by (simp add: word_le_nat_alt)
    then have "unat (64 + 56 - len mod 64) = 64 + 56 - n mod 64"
      using r by (simp add: unat_sub)
    with False lt show ?thesis by (simp add: t_def)
  qed
  have "1 \<le> unat t \<and> unat t \<le> 71"
    using r64 by (simp only: t split: if_splits) linarith
  then obtain k where k: "unat t = Suc k" "k \<le> 70"
    by (cases "unat t") auto
  have "take (unat t) (0x80 # replicate (64 + 8 - 1) (0::byte)) = 0x80 # replicate (unat t - 1) 0"
    using k by (simp add: min_def)
  then show ?thesis
    by (simp add: padding_def Let_def t len_def)
qed

lemma full_blocks_pad: "(n::nat) + k - n mod 64 = 64 * (n div 64) + k"
proof -
  have "n mod 64 \<le> n" by simp
  then have "n + k - n mod 64 = (n - n mod 64) + k" by simp
  then show ?thesis by (simp add: minus_mod_eq_mult_div)
qed

lemma length_padding: "(n + length (padding n)) mod 64 = 0"
  by (simp add: padding_def Let_def PutUint64_def full_blocks_pad)

lemma checkSum_Write:
  "checkSum (Write Reset m) = Returns (sha1_Sum m)"
proof -
  let ?init = "(init0, init1, init2, init3, init4)"
  let ?k = "length m - length m mod 64"
  let ?d = "\<lparr>digest_h = blockGeneric ?init m, digest_x = drop ?k m, digest_len = of_nat (length m)\<rparr>"
  have w: "Write Reset m = ?d"
    using Write_buffered [of Reset m] by (simp add: Reset_def)
  have x: "length (digest_x ?d) < 64" by simp
  let ?q = "drop ?k m @ padding (length m)"
  have lq: "length ?q mod 64 = 0"
  proof -
    have "length ?q = length m mod 64 + length (padding (length m))" by simp
    then have "length ?q mod 64 = (length m + length (padding (length m))) mod 64"
      by (simp add: mod_add_left_eq)
    then show ?thesis by (simp only: length_padding)
  qed
  have h: "blockGeneric (blockGeneric ?init m) ?q = blockGeneric ?init (m @ padding (length m))"
  proof -
    have k0: "length (take ?k m) mod 64 = 0" by (simp add: minus_mod_eq_mult_div)
    have "blockGeneric (blockGeneric ?init m) ?q = blockGeneric (blockGeneric ?init (take ?k m)) ?q"
      by (simp only: blockGeneric_full)
    also have "\<dots> = blockGeneric ?init (take ?k m @ ?q)"
      using k0 by (simp only: blockGeneric_append)
    also have "take ?k m @ ?q = m @ padding (length m)"
      by (simp only: append_assoc [symmetric] append_take_drop_id)
    finally show ?thesis .
  qed
  have w2: "Write ?d (padding (length m)) =
      \<lparr>digest_h = blockGeneric ?init (m @ padding (length m)), digest_x = [],
       digest_len = of_nat (length m) + of_nat (length (padding (length m)))\<rparr>"
    using Write_buffered [OF x, of "padding (length m)"] lq h by simp
  show ?thesis
    unfolding w
    using padlen_padding [of "length m"] w2
    by (simp add: checkSum_def Let_def sha1_Sum_def split: prod.splits)
qed

lemma getHash_on_eq:
  "getHash_on heap password = (getHash password, heap @ [Write Reset (bytesOf password)])"
  by (simp add: getHash_on_def sha1_New_def WriteString_def Sum_def checkSum_Write getHash_def Let_def
      split: outcome.splits)

section \<open>The claims\<close>

text \<open>
  Claim C1 (known vector). For the password \<^verbatim>\<open>"password"\<close>, \<open>getHash\<close> returns the full
  hash \<^verbatim>\<open>5BAA61E4C9B93F3F0682250B6CF8331B7EE68FD8\<close>, which has 40 characters, and the
  prefix \<^verbatim>\<open>5BAA6\<close>. The string of 39 characters
  \<^verbatim>\<open>5BAA61E4C9B93F3F0682250B6CF8331B7EE68FD\<close> lacks the last digit and is not what
  \<open>getHash\<close> returns.
\<close>

theorem getHash_password_vector:
  "getHash ''password'' =
     Returns \<lparr>Hash = ''5BAA61E4C9B93F3F0682250B6CF8331B7EE68FD8'', Range = ''5BAA6''\<rparr>"
  by (rule getHash_password)

theorem getHash_password_vector_counterexample:
  "getHash ''password'' \<noteq>
     Returns \<lparr>Hash = ''5BAA61E4C9B93F3F0682250B6CF8331B7EE68FD'', Range = ''5BAA6''\<rparr>"
  by (simp add: getHash_password)

text \<open>
  Claim C5 (shape of a fingerprint). For every password, \<open>getHash\<close> returns a
  fingerprint whose full hash is a string of 40 upper-case hexadecimal characters,
  whose prefix has exactly 5 characters, and whose full hash starts with the prefix.
\<close>

theorem getHash_fingerprint_shape:
  "\<exists>h. getHash p = Returns h \<and> length (Hash h) = 40 \<and> list_all isUpperHex (Hash h)
       \<and> length (Range h) = 5 \<and> take (length (Range h)) (Hash h) = Range h"
  using length_fullHash [of "bytesOf p"] upperHex_Sprintf_x [of "sha1_Sum (bytesOf p)"]
  by (simp add: getHash_Returns)

text \<open>
  Claim C7 (totality). \<open>getHash\<close> returns for every input and never panics: the
  slice \<^verbatim>\<open>hash[0:5]\<close> is always in range. Every check sends exactly one request, to
  the range URL followed by 5 upper-case hexadecimal characters. For the empty
  password the fingerprint is that of the empty string and the request goes to
  \<^verbatim>\<open>/range/DA39A\<close>.
\<close>

theorem getHash_total:
  "(\<exists>h. getHash p = Returns h)
   \<and> (\<exists>r. sent (snd (IsPwned p net)) = sent net @ [rangeURL @ r]
           \<and> length r = 5 \<and> list_all isUpperHex r)
   \<and> getHash [] = Returns \<lparr>Hash = ''DA39A3EE5E6B4B0D3255BFEF95601890AFD80709'', Range = ''DA39A''\<rparr>
   \<and> sent (snd (IsPwned [] net)) = sent net @ [''https://api.pwnedpasswords.com/range/DA39A'']"
proof -
  let ?full = "ToUpper (Sprintf_x (sha1_Sum (bytesOf p)))"
  have len: "length ?full = 40" by (rule length_fullHash)
  have "list_all isUpperHex ?full" by (rule upperHex_Sprintf_x)
  then have "list_all isUpperHex (take 5 ?full)"
    by (auto simp: list_all_iff dest: in_set_takeD)
  moreover have "sent (snd (IsPwned p net)) = sent net @ [rangeURL @ take 5 ?full]"
    using sent_IsPwned [OF getHash_Returns, of p net] by simp
  ultimately have "\<exists>r. sent (snd (IsPwned p net)) = sent net @ [rangeURL @ r]
           \<and> length r = 5 \<and> list_all isUpperHex r"
    using len by auto
  moreover have "sent (snd (IsPwned [] net)) = sent net @ [''https://api.pwnedpasswords.com/range/DA39A'']"
    using sent_IsPwned [OF getHash_empty, of net] by (simp add: rangeURL_def)
  ultimately show ?thesis
    by (simp add: getHash_empty) (simp add: getHash_Returns)
qed

text \<open>
  Claim C9 (determinism). A run of \<^verbatim>\<open>getHash\<close> allocates its own hasher and reads no
  other state: whatever hashers exist when it starts, it returns the same
  fingerprint. In particular a second run on the same password, started in the
  store that the first run left, returns what the first returned; and what a run
  returns is \<open>getHash\<close> of the password, a function of its bytes alone.
\<close>

theorem getHash_deterministic:
  "fst (getHash_on heap1 p) = fst (getHash_on heap2 p)
   \<and> fst (getHash_on (snd (getHash_on heap1 p)) p) = fst (getHash_on heap1 p)
   \<and> fst (getHash_on heap1 p) = getHash p"
  by (simp add: getHash_on_eq)

text \<open>
  Claim C3 (match). When the scan reaches a line that matches the fingerprint (every
  line before it has a colon and does not match) and the count field of that line
  parses, \<open>IsPwned\<close> returns \<open>Pwned = True\<close> with the parsed count. For the password
  \<^verbatim>\<open>"password"\<close> the matching line carries the 35 characters
  \<^verbatim>\<open>1E4C9B93F3F0682250B6CF8331B7EE68FD8\<close>: the witness is a response with that line and
  the count 3730471. The line with the 34 characters
  \<^verbatim>\<open>1E4C9B93F3F0682250B6CF8331B7EE68FD\<close> does not match, and a matching line whose
  count does not parse gives an error: the two halves of the counterexample.
\<close>

theorem IsPwned_first_match:
  assumes "getHash password = Returns hash"
    and "server net (rangeURL @ Range hash) = Body body"
    and "Split body CRLF = pre @ line # post"
    and "list_all (passes hash) pre"
    and "hasColon line" and "matches hash line"
    and "ParseUint (countOf line) = Inr count"
  shows "fst (IsPwned password net) = Returns (Some \<lparr>Pwned = True, TimesObserved = count\<rparr>, None)"
  using scan_reaches [OF assms(1-6)] assms(7) by simp

theorem IsPwned_first_match_witness:
  "fst (IsPwned ''password''
          \<lparr>server = answering (''0018A45C4D1DEF81644B54AB7F969B88D65:1'' @ CRLF
                                  @ ''1E4C9B93F3F0682250B6CF8331B7EE68FD8:3730471'' @ CRLF),
           sent = []\<rparr>)
     = Returns (Some \<lparr>Pwned = True, TimesObserved = 3730471\<rparr>, None)"
proof -
  let ?hash = "\<lparr>Hash = ''5BAA61E4C9B93F3F0682250B6CF8331B7EE68FD8'', Range = ''5BAA6''\<rparr>"
  let ?body = "''0018A45C4D1DEF81644B54AB7F969B88D65:1'' @ CRLF
                 @ ''1E4C9B93F3F0682250B6CF8331B7EE68FD8:3730471'' @ CRLF"
  have b: "server \<lparr>server = answering ?body, sent = []\<rparr> (rangeURL @ Range ?hash) = Body ?body"
    by (simp add: answering_def)
  have s: "Split ?body CRLF = [''0018A45C4D1DEF81644B54AB7F969B88D65:1'']
             @ ''1E4C9B93F3F0682250B6CF8331B7EE68FD8:3730471'' # [[]]"
    by (simp add: eval_body)
  have p: "list_all (passes ?hash) [''0018A45C4D1DEF81644B54AB7F969B88D65:1'']"
    by (simp add: passes_def eval_line)
  have c: "ParseUint (countOf ''1E4C9B93F3F0682250B6CF8331B7EE68FD8:3730471'') = Inr 3730471"
    by (simp add: hit1 parse1)
  show ?thesis
    using IsPwned_first_match [OF getHash_password b s p _ _ c] hit1 by simp
qed

theorem IsPwned_first_match_counterexample:
  "fst (IsPwned ''password''
          \<lparr>server = answering ''1E4C9B93F3F0682250B6CF8331B7EE68FD:3730471'', sent = []\<rparr>)
     = Returns (Some \<lparr>Pwned = False, TimesObserved = 0\<rparr>, None)
   \<and> fst (IsPwned ''password''
          \<lparr>server = answering ''1E4C9B93F3F0682250B6CF8331B7EE68FD8:abc'', sent = []\<rparr>)
     = Returns (None, Some (NumError ''abc'' ErrSyntax))"
  by (simp add: IsPwned_answering [OF getHash_password] eval_scan parse2 del: scanLines.simps(2))

text \<open>
  Claim C2 (malformed lines). The response is cut at CR LF into pieces (after a
  final CR LF comes a last, empty piece). When every piece that the loop reads has a
  colon, that is every piece up to and with the first one that matches the
  fingerprint, or every piece when none matches, \<open>IsPwned\<close> does not panic, and it
  returns an error of the protocol exactly when that first matching piece has a
  count field that is not a base-10 numeral below \<open>2 ^ 64\<close>. The count field of a
  piece that does not match is never parsed: a response whose only line is
  \<^verbatim>\<open>ABC:xyz\<close> yields \<open>Pwned = False\<close>, and a piece without a colon makes the check panic
  instead of returning an error (the counterexample).
\<close>

theorem IsPwned_protocol_error_iff:
  assumes "getHash password = Returns hash"
    and "server net (rangeURL @ Range hash) = Body body"
    and "list_all hasColon (scanned hash (Split body CRLF))"
  shows "(\<forall>r. fst (IsPwned password net) \<noteq> Panics r)
       \<and> ((\<exists>err. fst (IsPwned password net) = Returns (None, Some err) \<and> isProtocolError err)
           \<longleftrightarrow> (\<exists>line. find (matches hash) (Split body CRLF) = Some line
                       \<and> \<not> isUint64Numeral (countOf line)))"
proof -
  have eq: "fst (IsPwned password net) =
     (case find (matches hash) (Split body CRLF) of
        None \<Rightarrow> Returns (Some \<lparr>Pwned = False, TimesObserved = 0\<rparr>, None)
      | Some line \<Rightarrow>
          (case ParseUint (countOf line) of
             Inl err \<Rightarrow> Returns (None, Some err)
           | Inr count \<Rightarrow> Returns (Some \<lparr>Pwned = True, TimesObserved = count\<rparr>, None)))"
    using assms by (simp add: IsPwned_Body scanLines_scanned)
  show ?thesis
  proof (cases "find (matches hash) (Split body CRLF)")
    case None
    with eq show ?thesis by simp
  next
    case (Some line)
    with eq ParseUint_cases [of "countOf line"] show ?thesis
      by (auto simp: isProtocolError_def)
  qed
qed

theorem IsPwned_protocol_error_iff_witness:
  "list_all hasColon
     (scanned \<lparr>Hash = ''5BAA61E4C9B93F3F0682250B6CF8331B7EE68FD8'', Range = ''5BAA6''\<rparr>
        (Split (''ABC:xyz'' @ CRLF @ ''1E4C9B93F3F0682250B6CF8331B7EE68FD8:abc'' @ CRLF) CRLF))
   \<and> (\<exists>err. fst (IsPwned ''password''
                \<lparr>server = answering (''ABC:xyz'' @ CRLF @ ''1E4C9B93F3F0682250B6CF8331B7EE68FD8:abc'' @ CRLF),
                 sent = []\<rparr>) = Returns (None, Some err) \<and> isProtocolError err)"
proof -
  let ?hash = "\<lparr>Hash = ''5BAA61E4C9B93F3F0682250B6CF8331B7EE68FD8'', Range = ''5BAA6''\<rparr>"
  let ?body = "''ABC:xyz'' @ CRLF @ ''1E4C9B93F3F0682250B6CF8331B7EE68FD8:abc'' @ CRLF"
  have b: "server \<lparr>server = answering ?body, sent = []\<rparr> (rangeURL @ Range ?hash) = Body ?body"
    by (simp add: answering_def)
  have s: "Split ?body CRLF = [''ABC:xyz'', ''1E4C9B93F3F0682250B6CF8331B7EE68FD8:abc'', []]"
    by (simp add: eval_body)
  have c: "list_all hasColon (scanned ?hash (Split ?body CRLF))"
    unfolding s by (simp add: scanned_def eval_line)
  have f: "find (matches ?hash) (Split ?body CRLF) = Some ''1E4C9B93F3F0682250B6CF8331B7EE68FD8:abc''"
    unfolding s by (simp add: eval_line)
  have n: "\<not> isUint64Numeral (countOf ''1E4C9B93F3F0682250B6CF8331B7EE68FD8:abc'')"
    by (simp add: eval_line isUint64Numeral_def isDigit_def)
  show ?thesis
    using IsPwned_protocol_error_iff [OF getHash_password b c] c f n by simp
qed

theorem IsPwned_protocol_error_iff_counterexample:
  "fst (IsPwned ''password'' \<lparr>server = answering ''ABC:xyz'', sent = []\<rparr>)
     = Returns (Some \<lparr>Pwned = False, TimesObserved = 0\<rparr>, None)
   \<and> fst (IsPwned ''password'' \<lparr>server = answering ''ABC'', sent = []\<rparr>)
     = Panics IndexOutOfRange"
  by (simp add: IsPwned_answering [OF getHash_password] eval_scan del: scanLines.simps(2))

text \<open>
  Claim C10 (the count is a \<^verbatim>\<open>uint64\<close>). When the scan reaches a matching line: if its count
  field is a base-10 numeral below \<open>2 ^ 64\<close>, the result carries exactly that number,
  which is below \<open>2 ^ 64\<close>; if the field is empty, holds a byte that is not a digit
  (a sign is not a digit) or denotes a number of \<open>2 ^ 64\<close> or more, the check returns
  the error of \<open>ParseUint\<close> and no result. A matching line after the first matching
  line is never read, and a line without a colon before it makes the check panic
  (the counterexample).
\<close>

theorem IsPwned_count_uint64:
  assumes "getHash password = Returns hash"
    and "server net (rangeURL @ Range hash) = Body body"
    and "Split body CRLF = pre @ line # post"
    and "list_all (passes hash) pre"
    and "hasColon line" and "matches hash line"
  shows "(countOf line \<noteq> [] \<and> list_all isDigit (countOf line) \<and> decVal (countOf line) < 2 ^ 64 \<longrightarrow>
            (\<exists>r. fst (IsPwned password net) = Returns (Some r, None) \<and> Pwned r
                  \<and> unat (TimesObserved r) = decVal (countOf line)
                  \<and> unat (TimesObserved r) < 2 ^ 64))
       \<and> (countOf line = [] \<or> \<not> list_all isDigit (countOf line) \<or> 2 ^ 64 \<le> decVal (countOf line) \<longrightarrow>
            (\<exists>k. fst (IsPwned password net) = Returns (None, Some (NumError (countOf line) k))))
       \<and> \<not> isDigit CHR ''-'' \<and> \<not> isDigit CHR ''+''"
proof -
  note r = scan_reaches [OF assms]
  show ?thesis
    using ParseUint_cases [of "countOf line"]
    by (auto simp: r isUint64Numeral_def unat_of_nat_uint64 isDigit_def)
qed

theorem IsPwned_count_uint64_witness:
  "\<exists>k. fst (IsPwned ''password''
          \<lparr>server = answering (''ABC:7'' @ CRLF @ ''1E4C9B93F3F0682250B6CF8331B7EE68FD8:18446744073709551616''),
           sent = []\<rparr>)
     = Returns (None, Some (NumError ''18446744073709551616'' k))"
proof -
  let ?hash = "\<lparr>Hash = ''5BAA61E4C9B93F3F0682250B6CF8331B7EE68FD8'', Range = ''5BAA6''\<rparr>"
  let ?line = "''1E4C9B93F3F0682250B6CF8331B7EE68FD8:18446744073709551616''"
  let ?body = "''ABC:7'' @ CRLF @ ?line"
  have b: "server \<lparr>server = answering ?body, sent = []\<rparr> (rangeURL @ Range ?hash) = Body ?body"
    by (simp add: answering_def)
  have s: "Split ?body CRLF = [''ABC:7''] @ ?line # []"
    by (simp add: eval_body)
  have p: "list_all (passes ?hash) [''ABC:7'']"
    by (simp add: passes_def eval_line)
  have h: "hasColon ?line" and m: "matches ?hash ?line"
    and c: "countOf ?line = ''18446744073709551616''"
    by (simp_all add: eval_line)
  have d: "2 ^ 64 \<le> decVal ''18446744073709551616''"
    by (simp add: decVal_def)
  show ?thesis
    using IsPwned_count_uint64 [OF getHash_password b s p h m] c d by simp
qed

theorem IsPwned_count_uint64_counterexample:
  "fst (IsPwned ''password''
          \<lparr>server = answering (''1E4C9B93F3F0682250B6CF8331B7EE68FD8:1'' @ CRLF
                                  @ ''1E4C9B93F3F0682250B6CF8331B7EE68FD8:18446744073709551616''),
           sent = []\<rparr>)
     = Returns (Some \<lparr>Pwned = True, TimesObserved = 1\<rparr>, None)
   \<and> fst (IsPwned ''password''
          \<lparr>server = answering (''x'' @ CRLF
                                  @ ''1E4C9B93F3F0682250B6CF8331B7EE68FD8:18446744073709551616''),
           sent = []\<rparr>)
     = Panics IndexOutOfRange"
proof -
  have "ParseUint ''1'' = Inr 1"
    by (simp add: ParseUint_Inr isDigit_def decVal_def)
  then show ?thesis
    by (simp add: IsPwned_answering [OF getHash_password] eval_scan del: scanLines.simps(2))
qed

text \<open>
  Claim C4 (no match). The claim is that a response with no matching line yields
  \<open>Pwned = False\<close> and the count 0. On the empty response, and on a response whose
  lines all end in CR LF, \<open>strings.Split\<close> yields a last piece that is empty; it has
  no colon, and \<^verbatim>\<open>components[1]\<close> panics.
\<close>

theorem IsPwned_no_match_panics:
  "fst (IsPwned ''password'' \<lparr>server = answering [], sent = []\<rparr>) = Panics IndexOutOfRange
   \<and> fst (IsPwned ''password''
          \<lparr>server = answering (''0018A45C4D1DEF81644B54AB7F969B88D65:1'' @ CRLF), sent = []\<rparr>)
     = Panics IndexOutOfRange"
  by (simp add: IsPwned_answering [OF getHash_password] eval_scan del: scanLines.simps(2))

text \<open>
  Claim C6 (malformed count on the matching line). The claim is that such a response
  always yields an error. When a line without a colon stands before the matching
  line, \<open>IsPwned\<close> panics at \<^verbatim>\<open>components[1]\<close> before it reaches the matching line.
\<close>

theorem IsPwned_malformed_count_panics:
  "fst (IsPwned ''password''
          \<lparr>server = answering (''x'' @ CRLF @ ''1E4C9B93F3F0682250B6CF8331B7EE68FD8:abc''),
           sent = []\<rparr>)
     = Panics IndexOutOfRange"
  by (simp add: IsPwned_answering [OF getHash_password] eval_scan del: scanLines.simps(2))

text \<open>
  Claim C8 (result or error). The claim is that every invocation returns a pair of
  which exactly one component is present. Every pair that \<open>IsPwned\<close> returns is
  such a pair (\<open>IsPwned_returned_pair\<close>), but on the empty response \<open>IsPwned\<close> panics
  at \<^verbatim>\<open>components[1]\<close>, whatever the password, and returns no pair.
\<close>

theorem IsPwned_empty_body_panics:
  "fst (IsPwned password \<lparr>server = answering [], sent = requests\<rparr>) = Panics IndexOutOfRange"
proof -
  have "Split [] CRLF = [[]]" by (simp add: eval_body)
  moreover have "\<not> hasColon []" by (simp add: eval_line)
  ultimately show ?thesis
    by (simp add: IsPwned_Body [OF getHash_Returns] answering_def scanLines_Cons del: scanLines.simps(2))
qed

end
